theory Spec2Isabelle
  imports Main
begin

section \<open>Data model\<close>

text \<open>
  The tables read and written by the routers
  \<^verbatim>\<open>src/server/api/routers/serviceInstance.ts\<close> and
  \<^verbatim>\<open>src/server/api/routers/user.ts\<close>. A table is the list of its rows; opaque
  column values (ids, tokens, hashes, JSON payloads) are strings, timestamps are
  natural numbers.
\<close>

type_synonym timestamp = nat

datatype UserRole = ADMIN | USER

record user =
  user_id :: string
  username :: string
  hashedPassword :: string
  role :: UserRole
  isActive :: bool

text \<open>A row of \<^verbatim>\<open>userInstanceAbilities\<close>, the access-grant ledger.\<close>

record userInstanceAbility =
  userId :: string
  instanceId :: string
  token :: string
  canUse :: bool
  updatedAt :: timestamp

text \<open>
  A row of \<^verbatim>\<open>serviceInstances\<close>. The display and configuration columns, whose
  declaration is not part of the routers, are kept as one opaque value.
\<close>

record serviceInstance =
  si_id :: string
  si_config :: string
  si_data :: string
  si_createdAt :: timestamp
  si_updatedAt :: timestamp

record resourceUsageLog =
  log_instanceId :: string
  log_entry :: string

record db =
  users :: "user list"
  userInstanceAbilities :: "userInstanceAbility list"
  serviceInstances :: "serviceInstance list"
  resourceUsageLogs :: "resourceUsageLog list"

subsection \<open>Errors\<close>

text \<open>
  Every \<^verbatim>\<open>throw\<close> of the routers is a value: a \<^verbatim>\<open>TRPCError\<close> with its code and
  message, the error of a schema \<^verbatim>\<open>parse\<close>, or the rejection of a statement by the
  store.
\<close>

datatype error_code = UNAUTHORIZED | FORBIDDEN | BAD_REQUEST | NOT_FOUND

datatype error = TRPCError error_code string | ZodError | StoreError

subsection \<open>Table constraints\<close>

text \<open>
  Modelled from the spec: the uniqueness constraints of the ledger table, whose
  declaration (\<^verbatim>\<open>@/server/db/schema\<close>) is not under src/. The data model gives a
  ledger row the composite identity \<open>(userId, instanceId)\<close>, the conflict target of
  the upsert in \<^verbatim>\<open>grantToAllActiveUsers\<close>, and a unique token.
\<close>

definition pairKey :: "userInstanceAbility \<Rightarrow> string \<times> string" where
  "pairKey a = (userId a, instanceId a)"

definition uniquePairs :: "db \<Rightarrow> bool" where
  "uniquePairs d = distinct (map pairKey (userInstanceAbilities d))"

definition uniqueTokens :: "db \<Rightarrow> bool" where
  "uniqueTokens d = distinct (map token (userInstanceAbilities d))"

text \<open>Modelled from the spec: the id of a user is unique.\<close>

definition uniqueUserIds :: "db \<Rightarrow> bool" where
  "uniqueUserIds d = distinct (map user_id (users d))"

section \<open>The verification endpoint\<close>

text \<open>
  \<^verbatim>\<open>verifyUserAbility\<close>, the body of the query (serviceInstance.ts, lines 149-166).
  \<^verbatim>\<open>findFirst\<close> returns the first row that satisfies the predicate, or
  \<^verbatim>\<open>undefined\<close>. The fields \<^verbatim>\<open>requestIp\<close> and \<^verbatim>\<open>userIp\<close> of the input are
  checked by the input schema before the body runs and are not read by it.
\<close>

definition verifyUserAbility :: "db \<Rightarrow> string \<Rightarrow> string \<Rightarrow> error + string" where
  "verifyUserAbility d inputInstanceId userToken =
     (case find (\<lambda>a. instanceId a = inputInstanceId \<and> token a = userToken)
             (userInstanceAbilities d) of
        None \<Rightarrow> Inl (TRPCError UNAUTHORIZED ''Invalid token'')
      | Some instanceToken \<Rightarrow>
          if instanceId instanceToken \<noteq> inputInstanceId
          then Inl (TRPCError UNAUTHORIZED ''Invalid instanceId'')
          else if canUse instanceToken = False
          then Inl (TRPCError FORBIDDEN ''You are not permitted to use this instance'')
          else Inr (userId instanceToken))"

section \<open>The service instance registry\<close>

text \<open>
  The schemas (\<^verbatim>\<open>@/schema/serviceInstance.schema\<close>) are not under src/; a schema is a
  parameter, the function that validates and shapes one value. The admin schema is an
  object schema (the router calls \<^verbatim>\<open>pick\<close> and \<^verbatim>\<open>merge\<close> on it), so parsing
  \<^verbatim>\<open>undefined\<close> throws.
\<close>

definition parse :: "('r \<Rightarrow> error + 'v) \<Rightarrow> 'r option \<Rightarrow> error + 'v" where
  "parse schema x = (case x of None \<Rightarrow> Inl ZodError | Some r \<Rightarrow> schema r)"

fun parseArray :: "('r \<Rightarrow> error + 'v) \<Rightarrow> 'r list \<Rightarrow> error + 'v list" where
  "parseArray schema [] = Inr []"
| "parseArray schema (r # rs) =
     (case schema r of
        Inl e \<Rightarrow> Inl e
      | Inr v \<Rightarrow> (case parseArray schema rs of Inl e \<Rightarrow> Inl e | Inr vs \<Rightarrow> Inr (v # vs)))"

text \<open>\<^verbatim>\<open>result[0]\<close>: the first element, \<^verbatim>\<open>undefined\<close> for an empty array.\<close>

definition first :: "'a list \<Rightarrow> 'a option" where
  "first xs = (case xs of [] \<Rightarrow> None | x # _ \<Rightarrow> Some x)"

text \<open>
  The input of \<^verbatim>\<open>update\<close>: every field may be absent. A column whose value is
  absent is not written by \<^verbatim>\<open>set\<close>.
\<close>

record updateInput =
  upd_id :: "string option"
  upd_config :: "string option"
  upd_data :: "string option"

definition orKeep :: "'a option \<Rightarrow> 'a \<Rightarrow> 'a" where
  "orKeep v old = (case v of None \<Rightarrow> old | Some x \<Rightarrow> x)"

definition setInput :: "updateInput \<Rightarrow> timestamp \<Rightarrow> serviceInstance \<Rightarrow> serviceInstance" where
  "setInput input now s =
     s\<lparr> si_id := orKeep (upd_id input) (si_id s),
        si_config := orKeep (upd_config input) (si_config s),
        si_data := orKeep (upd_data input) (si_data s),
        si_updatedAt := now \<rparr>"

text \<open>
  \<^verbatim>\<open>update\<close> (lines 58-71). \<^verbatim>\<open>!input.id\<close> holds for an absent id and for the
  empty string. The statement writes the matching rows and returns them; the write is
  not undone when the parse of the result throws.
\<close>

definition update ::
  "(serviceInstance \<Rightarrow> error + 'v) \<Rightarrow> timestamp \<Rightarrow> db \<Rightarrow> updateInput \<Rightarrow> (error + 'v) \<times> db" where
  "update ServiceInstanceAdminSchema now d input =
     (case upd_id input of
        None \<Rightarrow> (Inl (TRPCError BAD_REQUEST ''ID is required''), d)
      | Some i \<Rightarrow>
          if i = [] then (Inl (TRPCError BAD_REQUEST ''ID is required''), d)
          else
            let result = map (setInput input now)
                           (filter (\<lambda>s. si_id s = i) (serviceInstances d))
            in (parse ServiceInstanceAdminSchema (first result),
                d\<lparr> serviceInstances :=
                     map (\<lambda>s. if si_id s = i then setInput input now s else s)
                       (serviceInstances d) \<rparr>))"

record updateDataInput =
  ud_id :: "string option"
  ud_data :: "string option"

definition setData :: "string option \<Rightarrow> timestamp \<Rightarrow> serviceInstance \<Rightarrow> serviceInstance" where
  "setData v now s = s\<lparr> si_data := orKeep v (si_data s), si_updatedAt := now \<rparr>"

text \<open>\<^verbatim>\<open>updateData\<close> (lines 73-88).\<close>

definition updateData ::
  "(serviceInstance \<Rightarrow> error + 'v) \<Rightarrow> timestamp \<Rightarrow> db \<Rightarrow> updateDataInput \<Rightarrow> (error + 'v) \<times> db"
  where
  "updateData ServiceInstanceAdminSchema now d input =
     (case ud_id input of
        None \<Rightarrow> (Inl (TRPCError BAD_REQUEST ''ID is required''), d)
      | Some i \<Rightarrow>
          if i = [] then (Inl (TRPCError BAD_REQUEST ''ID is required''), d)
          else
            let result = map (setData (ud_data input) now)
                           (filter (\<lambda>s. si_id s = i) (serviceInstances d))
            in (parse ServiceInstanceAdminSchema (first result),
                d\<lparr> serviceInstances :=
                     map (\<lambda>s. if si_id s = i then setData (ud_data input) now s else s)
                       (serviceInstances d) \<rparr>))"

text \<open>
  \<^verbatim>\<open>getAllWithToken\<close> (lines 95-116): the inner join of the instances with the
  ledger on the three conditions of the \<^verbatim>\<open>and\<close>, each joined pair giving the instance
  and the token of the ledger row; then the parse of the array.
\<close>

definition innerJoin :: "db \<Rightarrow> string \<Rightarrow> (serviceInstance \<times> string) list" where
  "innerJoin d callerId =
     concat (map (\<lambda>s. map (\<lambda>a. (s, token a))
                        (filter (\<lambda>a. instanceId a = si_id s \<and> userId a = callerId
                                       \<and> canUse a = True)
                           (userInstanceAbilities d)))
               (serviceInstances d))"

definition getAllWithToken ::
  "(serviceInstance \<times> string \<Rightarrow> error + 'v) \<Rightarrow> db \<Rightarrow> user \<Rightarrow> error + 'v list" where
  "getAllWithToken ServiceInstanceWithToken d ctxUser =
     parseArray ServiceInstanceWithToken (innerJoin d (user_id ctxUser))"

section \<open>Transactions\<close>

text \<open>
  Modelled from the spec: the store's transaction primitive (\<^verbatim>\<open>ctx.db.transaction\<close> of
  the query layer, not under src/). The writes of the callback are applied together
  when it returns and none is applied when it throws. A statement awaited inside the
  callback may be rejected by the store; the flag says whether this one is, and the
  exception leaves the callback at that statement.
\<close>

definition stmt :: "bool \<Rightarrow> (db \<Rightarrow> db) \<Rightarrow> db \<Rightarrow> error + db" where
  "stmt rejected write tx = (if rejected then Inl StoreError else Inr (write tx))"

definition transaction :: "(db \<Rightarrow> error + db) \<Rightarrow> db \<Rightarrow> (error + unit) \<times> db" where
  "transaction callback d =
     (case callback d of Inl e \<Rightarrow> (Inl e, d) | Inr tx \<Rightarrow> (Inr (), tx))"

text \<open>
  \<^verbatim>\<open>delete\<close> (lines 128-138). \<open>rejected k\<close> says whether the store rejects the
  \<open>k\<close>-th statement of the transaction.
\<close>

definition deleteAbilities :: "string \<Rightarrow> db \<Rightarrow> db" where
  "deleteAbilities i tx =
     tx\<lparr> userInstanceAbilities := filter (\<lambda>a. instanceId a \<noteq> i) (userInstanceAbilities tx) \<rparr>"

definition deleteInstance :: "string \<Rightarrow> db \<Rightarrow> db" where
  "deleteInstance i tx =
     tx\<lparr> serviceInstances := filter (\<lambda>s. si_id s \<noteq> i) (serviceInstances tx) \<rparr>"

definition deleteUsageLogs :: "string \<Rightarrow> db \<Rightarrow> db" where
  "deleteUsageLogs i tx =
     tx\<lparr> resourceUsageLogs := filter (\<lambda>l. log_instanceId l \<noteq> i) (resourceUsageLogs tx) \<rparr>"

definition delete :: "(nat \<Rightarrow> bool) \<Rightarrow> db \<Rightarrow> string \<Rightarrow> bool \<Rightarrow> (error + unit) \<times> db" where
  "delete rejected d i deleteLogs =
     transaction
       (\<lambda>tx. case stmt (rejected 0) (deleteAbilities i) tx of
                Inl e \<Rightarrow> Inl e
              | Inr tx1 \<Rightarrow>
                  (case stmt (rejected 1) (deleteInstance i) tx1 of
                     Inl e \<Rightarrow> Inl e
                   | Inr tx2 \<Rightarrow>
                       if deleteLogs then stmt (rejected 2) (deleteUsageLogs i) tx2
                       else Inr tx2))
       d"

section \<open>The access grant ledger\<close>

text \<open>
  The upsert of \<^verbatim>\<open>grantToAllActiveUsers\<close>: the insert of the row \<open>v\<close>, and on a
  conflict on \<open>(userId, instanceId)\<close> the update of the conflicting row, which sets
  \<^verbatim>\<open>canUse\<close> and \<^verbatim>\<open>updatedAt\<close> only.
\<close>

definition conflicts :: "userInstanceAbility \<Rightarrow> userInstanceAbility \<Rightarrow> bool" where
  "conflicts v a = (userId a = userId v \<and> instanceId a = instanceId v)"

definition upsertRow ::
  "userInstanceAbility \<Rightarrow> timestamp \<Rightarrow> userInstanceAbility list \<Rightarrow> userInstanceAbility list"
  where
  "upsertRow v setUpdatedAt rows =
     (if \<exists>a \<in> set rows. conflicts v a
      then map (\<lambda>a. if conflicts v a then a\<lparr> canUse := True, updatedAt := setUpdatedAt \<rparr> else a)
             rows
      else rows @ [v])"

definition upsertAbility :: "userInstanceAbility \<Rightarrow> timestamp \<Rightarrow> db \<Rightarrow> db" where
  "upsertAbility v setUpdatedAt tx =
     tx\<lparr> userInstanceAbilities := upsertRow v setUpdatedAt (userInstanceAbilities tx) \<rparr>"

text \<open>
  \<^verbatim>\<open>grantToAllActiveUsers\<close> (lines 34-56). \<^verbatim>\<open>createCUID\<close> (\<^verbatim>\<open>@/lib/cuid\<close>) is not
  under src/: \<open>createCUID k\<close> is the value of the call made in the \<open>k\<close>-th iteration of
  the loop, and an iteration calls it whether or not the row conflicts. \<open>now j\<close> is the
  value of the \<open>j\<close>-th read of the clock: an iteration reads it twice, for the row to
  insert and for the update on a conflict. The ids are read before the transaction
  begins.
\<close>

fun grantLoop ::
  "(nat \<Rightarrow> bool) \<Rightarrow> (nat \<Rightarrow> string) \<Rightarrow> (nat \<Rightarrow> timestamp) \<Rightarrow> string \<Rightarrow> nat \<Rightarrow> string list
     \<Rightarrow> db \<Rightarrow> error + db" where
  "grantLoop rejected createCUID now inputInstanceId k [] tx = Inr tx"
| "grantLoop rejected createCUID now inputInstanceId k (uid # userIds) tx =
     (case stmt (rejected k)
             (upsertAbility \<lparr> userId = uid, instanceId = inputInstanceId,
                              token = createCUID k, canUse = True,
                              updatedAt = now (2 * k) \<rparr>
                (now (2 * k + 1)))
             tx of
        Inl e \<Rightarrow> Inl e
      | Inr tx' \<Rightarrow> grantLoop rejected createCUID now inputInstanceId (Suc k) userIds tx')"

definition activeUserIds :: "db \<Rightarrow> string list" where
  "activeUserIds d = map user_id (filter (\<lambda>u. isActive u = True) (users d))"

definition grantToAllActiveUsers ::
  "(nat \<Rightarrow> bool) \<Rightarrow> (nat \<Rightarrow> string) \<Rightarrow> (nat \<Rightarrow> timestamp) \<Rightarrow> db \<Rightarrow> string
     \<Rightarrow> (error + unit) \<times> db" where
  "grantToAllActiveUsers rejected createCUID now d inputInstanceId =
     transaction (grantLoop rejected createCUID now inputInstanceId 0 (activeUserIds d)) d"

section \<open>The user router\<close>

text \<open>
  The password primitives (\<^verbatim>\<open>@/lib/password\<close>) are not under src/ and are parameters.
  What \<^verbatim>\<open>login\<close> does besides reading the users is recorded in a trace: its calls
  of the password primitives and of the session library, in their order.
\<close>

datatype effect =
  VerifyPassword string string
  | CreateSession string
  | SetSessionCookie

text \<open>
  \<^verbatim>\<open>login\<close> (user.ts, lines 29-45). In the branch of the missing user the call of
  \<^verbatim>\<open>hashPassword\<close> is commented out in the source, so the branch throws at once.
\<close>

definition login ::
  "(string \<Rightarrow> string \<Rightarrow> bool) \<Rightarrow> db \<Rightarrow> string \<Rightarrow> string \<Rightarrow> (error + unit) \<times> effect list" where
  "login verifyPassword d inputUsername inputPassword =
     (case find (\<lambda>u. username u = inputUsername) (users d) of
        None \<Rightarrow> (Inl (TRPCError UNAUTHORIZED ''Wrong username or password''), [])
      | Some u \<Rightarrow>
          if \<not> verifyPassword inputPassword (hashedPassword u)
          then (Inl (TRPCError UNAUTHORIZED ''Wrong username or password''),
                [VerifyPassword inputPassword (hashedPassword u)])
          else (Inr (),
                [VerifyPassword inputPassword (hashedPassword u),
                 CreateSession (user_id u), SetSessionCookie]))"

text \<open>
  \<^verbatim>\<open>changePassword\<close> (user.ts, lines 100-115). The hash is computed before the
  check. The update of the store throws when no row has the id.
\<close>

definition changePassword ::
  "(string \<Rightarrow> string) \<Rightarrow> db \<Rightarrow> user \<Rightarrow> string \<Rightarrow> string \<Rightarrow> (error + user) \<times> db" where
  "changePassword hashPassword d ctxUser inputId inputPassword =
     (let hashed = hashPassword inputPassword in
      if role ctxUser \<noteq> ADMIN \<and> inputId \<noteq> user_id ctxUser
      then (Inl (TRPCError FORBIDDEN ''You can only change your own password''), d)
      else
        (case find (\<lambda>u. user_id u = inputId) (users d) of
           None \<Rightarrow> (Inl StoreError, d)
         | Some u \<Rightarrow>
             (Inr (u\<lparr> hashedPassword := hashed \<rparr>),
              d\<lparr> users := map (\<lambda>u. if user_id u = inputId
                                    then u\<lparr> hashedPassword := hashed \<rparr> else u)
                            (users d) \<rparr>)))"

section \<open>Example data\<close>

text \<open>
  A store with three active users and one inactive user, two instances, and the store
  after \<^verbatim>\<open>grantToAllActiveUsers\<close> on the instance \<open>Y\<close>.
\<close>

definition demoStore :: db where
  "demoStore =
     \<lparr> users =
         [\<lparr> user_id = ''u1'', username = ''alice'', hashedPassword = ''h1'', role = USER, isActive = True \<rparr>,
          \<lparr> user_id = ''u2'', username = ''bob'', hashedPassword = ''h2'', role = USER, isActive = True \<rparr>,
          \<lparr> user_id = ''u3'', username = ''carol'', hashedPassword = ''h3'', role = ADMIN, isActive = True \<rparr>,
          \<lparr> user_id = ''u4'', username = ''dave'', hashedPassword = ''h4'', role = USER, isActive = False \<rparr>],
       userInstanceAbilities =
         [\<lparr> userId = ''u1'', instanceId = ''X'', token = ''t1'', canUse = True, updatedAt = 1 \<rparr>,
          \<lparr> userId = ''u2'', instanceId = ''X'', token = ''t2'', canUse = False, updatedAt = 1 \<rparr>,
          \<lparr> userId = ''u1'', instanceId = ''Y'', token = ''t3'', canUse = True, updatedAt = 1 \<rparr>],
       serviceInstances =
         [\<lparr> si_id = ''X'', si_config = ''cx'', si_data = ''dx'', si_createdAt = 0, si_updatedAt = 0 \<rparr>,
          \<lparr> si_id = ''Y'', si_config = ''cy'', si_data = ''dy'', si_createdAt = 0, si_updatedAt = 0 \<rparr>],
       resourceUsageLogs =
         [\<lparr> log_instanceId = ''X'', log_entry = ''e1'' \<rparr>,
          \<lparr> log_instanceId = ''Y'', log_entry = ''e2'' \<rparr>] \<rparr>"


definition demoGranted :: db where
  "demoGranted =
     demoStore\<lparr> userInstanceAbilities :=
       [\<lparr> userId = ''u1'', instanceId = ''X'', token = ''t1'', canUse = True, updatedAt = 1 \<rparr>,
        \<lparr> userId = ''u2'', instanceId = ''X'', token = ''t2'', canUse = False, updatedAt = 1 \<rparr>,
        \<lparr> userId = ''u1'', instanceId = ''Y'', token = ''t3'', canUse = True, updatedAt = 7 \<rparr>,
        \<lparr> userId = ''u2'', instanceId = ''Y'', token = ''cx'', canUse = True, updatedAt = 7 \<rparr>,
        \<lparr> userId = ''u3'', instanceId = ''Y'', token = ''cxx'', canUse = True, updatedAt = 7 \<rparr>] \<rparr>"

section \<open>Properties of the verification endpoint\<close>

lemma find_unique_token:
  assumes "distinct (map token xs)" and "r \<in> set xs" and "instanceId r = i"
  shows "find (\<lambda>a. instanceId a = i \<and> token a = token r) xs = Some r"
  using assms
proof (induction xs)
  case Nil
  then show ?case by simp
next
  case (Cons x xs)
  show ?case
  proof (cases "x = r")
    case True
    with Cons.prems show ?thesis by simp
  next
    case False
    with Cons.prems have "r \<in> set xs" by simp
    with Cons.prems have "token x \<noteq> token r" by force
    with Cons \<open>r \<in> set xs\<close> show ?thesis by simp
  qed
qed

lemma find_matches:
  "find P xs = Some r \<Longrightarrow> P r \<and> r \<in> set xs"
  by (induction xs) (auto split: if_splits)

text \<open>
  C1. In a ledger with unique tokens, for every row whose instanceId and token are the
  inputs and whose canUse is true, verifyUserAbility succeeds and returns the userId of
  that row.
\<close>

theorem verifyUserAbility_returns_userId:
  assumes "uniqueTokens d"
    and "r \<in> set (userInstanceAbilities d)"
    and "instanceId r = i" and "token r = t" and "canUse r"
  shows "verifyUserAbility d i t = Inr (userId r)"
proof -
  from assms have "find (\<lambda>a. instanceId a = i \<and> token a = t) (userInstanceAbilities d) = Some r"
    using find_unique_token [of "userInstanceAbilities d" r i] by (simp add: uniqueTokens_def)
  with assms show ?thesis by (simp add: verifyUserAbility_def)
qed

theorem verifyUserAbility_returns_userId_witness:
  "verifyUserAbility demoStore ''X'' ''t1'' = Inr ''u1''"
  using verifyUserAbility_returns_userId
    [of demoStore
        "\<lparr> userId = ''u1'', instanceId = ''X'', token = ''t1'', canUse = True,
           updatedAt = 1 \<rparr>"
        "''X''" "''t1''"]
  by (simp add: demoStore_def uniqueTokens_def)

text \<open>
  C2. verifyUserAbility fails with UNAUTHORIZED exactly when no ledger row has the
  input instanceId and token; and in a ledger with unique tokens it fails with
  FORBIDDEN when a row has the input instanceId and token and its canUse is false.
\<close>

theorem verifyUserAbility_errors:
  "((\<exists>m. verifyUserAbility d i t = Inl (TRPCError UNAUTHORIZED m)) \<longleftrightarrow>
      \<not> (\<exists>a \<in> set (userInstanceAbilities d). instanceId a = i \<and> token a = t))
   \<and> (uniqueTokens d \<longrightarrow>
        (\<forall>r \<in> set (userInstanceAbilities d).
           instanceId r = i \<and> token r = t \<and> \<not> canUse r \<longrightarrow>
           verifyUserAbility d i t =
             Inl (TRPCError FORBIDDEN ''You are not permitted to use this instance'')))"
proof (intro conjI impI ballI)
  show "(\<exists>m. verifyUserAbility d i t = Inl (TRPCError UNAUTHORIZED m)) \<longleftrightarrow>
      \<not> (\<exists>a \<in> set (userInstanceAbilities d). instanceId a = i \<and> token a = t)"
  proof (cases "find (\<lambda>a. instanceId a = i \<and> token a = t) (userInstanceAbilities d)")
    case None
    then have "\<not> (\<exists>a \<in> set (userInstanceAbilities d). instanceId a = i \<and> token a = t)"
      by (simp add: find_None_iff)
    with None show ?thesis by (simp add: verifyUserAbility_def)
  next
    case (Some r)
    from find_matches [OF Some] show ?thesis
      using Some by (auto simp: verifyUserAbility_def)
  qed
next
  fix r
  assume u: "uniqueTokens d" and r: "r \<in> set (userInstanceAbilities d)"
    and m: "instanceId r = i \<and> token r = t \<and> \<not> canUse r"
  from u r m have "find (\<lambda>a. instanceId a = i \<and> token a = t) (userInstanceAbilities d) = Some r"
    using find_unique_token [of "userInstanceAbilities d" r i] by (simp add: uniqueTokens_def)
  with m show "verifyUserAbility d i t =
      Inl (TRPCError FORBIDDEN ''You are not permitted to use this instance'')"
    by (simp add: verifyUserAbility_def)
qed

theorem verifyUserAbility_errors_witness:
  "verifyUserAbility demoStore ''X'' ''nope'' = Inl (TRPCError UNAUTHORIZED ''Invalid token'')
   \<and> verifyUserAbility demoStore ''X'' ''t2'' =
       Inl (TRPCError FORBIDDEN ''You are not permitted to use this instance'')"
proof -
  let ?r = "\<lparr> userId = ''u2'', instanceId = ''X'', token = ''t2'', canUse = False,
              updatedAt = 1 \<rparr>"
  have u: "uniqueTokens demoStore"
    by (simp add: uniqueTokens_def demoStore_def)
  have r: "?r \<in> set (userInstanceAbilities demoStore)"
    by (simp add: demoStore_def)
  have n: "\<not> (\<exists>a \<in> set (userInstanceAbilities demoStore).
              instanceId a = ''X'' \<and> token a = ''nope'')"
    by (simp add: demoStore_def)
  from verifyUserAbility_errors [of demoStore "''X''" "''nope''"] n
  obtain m where m: "verifyUserAbility demoStore ''X'' ''nope'' = Inl (TRPCError UNAUTHORIZED m)"
    by blast
  then have a: "verifyUserAbility demoStore ''X'' ''nope''
      = Inl (TRPCError UNAUTHORIZED ''Invalid token'')"
    by (simp add: verifyUserAbility_def demoStore_def)
  from verifyUserAbility_errors [of demoStore "''X''" "''t2''"] u r
  have "verifyUserAbility demoStore ''X'' ''t2'' =
       Inl (TRPCError FORBIDDEN ''You are not permitted to use this instance'')"
    by force
  with a show ?thesis by simp
qed

text \<open>
  C9. The second UNAUTHORIZED guard of verifyUserAbility is unreachable: whatever the
  ledger and the input, a row returned by the lookup has the input instanceId, so the
  error "Invalid instanceId" is never the result.
\<close>

theorem verifyUserAbility_guard_unreachable:
  "(\<forall>r. find (\<lambda>a. instanceId a = i \<and> token a = t) (userInstanceAbilities d) = Some r
        \<longrightarrow> instanceId r = i)
   \<and> verifyUserAbility d i t \<noteq> Inl (TRPCError UNAUTHORIZED ''Invalid instanceId'')"
proof (intro conjI allI impI)
  fix r
  assume "find (\<lambda>a. instanceId a = i \<and> token a = t) (userInstanceAbilities d) = Some r"
  from find_matches [OF this] show "instanceId r = i" by simp
next
  show "verifyUserAbility d i t \<noteq> Inl (TRPCError UNAUTHORIZED ''Invalid instanceId'')"
  proof (cases "find (\<lambda>a. instanceId a = i \<and> token a = t) (userInstanceAbilities d)")
    case None
    then show ?thesis by (simp add: verifyUserAbility_def)
  next
    case (Some r)
    from find_matches [OF Some] show ?thesis
      using Some by (simp add: verifyUserAbility_def)
  qed
qed

theorem verifyUserAbility_guard_unreachable_witness:
  "find (\<lambda>a. instanceId a = ''X'' \<and> token a = ''t1'') (userInstanceAbilities demoStore)
     = Some \<lparr> userId = ''u1'', instanceId = ''X'', token = ''t1'', canUse = True,
              updatedAt = 1 \<rparr>
   \<and> verifyUserAbility demoStore ''X'' ''t1''
       \<noteq> Inl (TRPCError UNAUTHORIZED ''Invalid instanceId'')"
  using verifyUserAbility_guard_unreachable [of "''X''" "''t1''" demoStore]
  by (simp add: demoStore_def)


section \<open>Properties of the service instance registry\<close>

lemma map_if_none:
  "\<forall>x \<in> set xs. \<not> P x \<Longrightarrow> map (\<lambda>x. if P x then f x else x) xs = xs"
  by (induction xs) auto

lemma filter_none:
  "\<forall>x \<in> set xs. \<not> P x \<Longrightarrow> filter P xs = []"
  by (induction xs) auto

text \<open>
  C8. update and updateData, called with an input that has no id, fail with
  BAD_REQUEST and leave the store, and so every service-instance row, as it was.
\<close>

theorem update_without_id:
  "(upd_id input = None \<longrightarrow>
      update schema now d input = (Inl (TRPCError BAD_REQUEST ''ID is required''), d))
   \<and> (ud_id dataInput = None \<longrightarrow>
      updateData schema now d dataInput = (Inl (TRPCError BAD_REQUEST ''ID is required''), d))"
  by (simp add: update_def updateData_def)

theorem update_without_id_witness:
  "update Inr 5 demoStore \<lparr> upd_id = None, upd_config = Some ''c'', upd_data = Some ''p'' \<rparr>
     = (Inl (TRPCError BAD_REQUEST ''ID is required''), demoStore)
   \<and> updateData Inr 5 demoStore \<lparr> ud_id = None, ud_data = Some ''p'' \<rparr>
     = (Inl (TRPCError BAD_REQUEST ''ID is required''), demoStore)"
  using update_without_id
    [of "\<lparr> upd_id = None, upd_config = Some ''c'', upd_data = Some ''p'' \<rparr>" Inr 5 demoStore
        "\<lparr> ud_id = None, ud_data = Some ''p'' \<rparr>"]
  by simp

text \<open>
  C10. update and updateData, called with a non-empty id that no service instance has,
  fail neither with NOT_FOUND nor with BAD_REQUEST: the statement changes no row and
  returns no row, and the parse of the missing first element throws the error of the
  schema.
\<close>

theorem update_unknown_id:
  assumes "i \<noteq> []" and "\<forall>s \<in> set (serviceInstances d). si_id s \<noteq> i"
  shows "(upd_id input = Some i \<longrightarrow> update schema now d input = (Inl ZodError, d))
       \<and> (ud_id dataInput = Some i \<longrightarrow> updateData schema now d dataInput = (Inl ZodError, d))"
proof -
  from assms(2) have none: "filter (\<lambda>s. si_id s = i) (serviceInstances d) = []"
    by (simp add: filter_none)
  from assms(2) have same: "\<And>f. map (\<lambda>s. if si_id s = i then f s else s) (serviceInstances d)
      = serviceInstances d"
    by (simp add: map_if_none)
  from assms(1) none same show ?thesis
    by (simp add: update_def updateData_def parse_def first_def)
qed

theorem update_unknown_id_witness:
  "update Inr 5 demoStore \<lparr> upd_id = Some ''Z'', upd_config = Some ''c'', upd_data = None \<rparr>
     = (Inl ZodError, demoStore)
   \<and> updateData Inr 5 demoStore \<lparr> ud_id = Some ''Z'', ud_data = Some ''p'' \<rparr>
     = (Inl ZodError, demoStore)"
  using update_unknown_id
    [of "''Z''" demoStore "\<lparr> upd_id = Some ''Z'', upd_config = Some ''c'', upd_data = None \<rparr>"
        Inr 5 "\<lparr> ud_id = Some ''Z'', ud_data = Some ''p'' \<rparr>"]
  by (simp add: demoStore_def)

lemma parseArray_Inr:
  "parseArray schema rs = Inr vs \<Longrightarrow> list_all2 (\<lambda>r v. schema r = Inr v) rs vs"
  by (induction rs arbitrary: vs) (auto split: sum.splits)

lemma parseArray_total:
  "\<forall>r \<in> set rs. \<exists>v. schema r = Inr v \<Longrightarrow> \<exists>vs. parseArray schema rs = Inr vs"
  by (induction rs) (auto split: sum.splits)

lemma set_innerJoin:
  "set (innerJoin d c) =
     {(s, token a) | s a. s \<in> set (serviceInstances d) \<and> a \<in> set (userInstanceAbilities d)
        \<and> instanceId a = si_id s \<and> userId a = c \<and> canUse a}"
  by (auto simp: innerJoin_def)

text \<open>
  C6. The rows that getAllWithToken reads are exactly the pairs of a service instance
  and the token of a ledger row of the caller for that instance with canUse true; an
  instance with no such row is in no pair. The result is the parse of these rows by the
  schema, element by element, and there is a result when the schema accepts every row.
\<close>

theorem getAllWithToken_rows:
  "set (innerJoin d (user_id ctxUser)) =
     {(s, token a) | s a. s \<in> set (serviceInstances d) \<and> a \<in> set (userInstanceAbilities d)
        \<and> userId a = user_id ctxUser \<and> instanceId a = si_id s \<and> canUse a}
   \<and> (\<forall>vs. getAllWithToken schema d ctxUser = Inr vs \<longrightarrow>
         list_all2 (\<lambda>r v. schema r = Inr v) (innerJoin d (user_id ctxUser)) vs)
   \<and> ((\<forall>r \<in> set (innerJoin d (user_id ctxUser)). \<exists>v. schema r = Inr v) \<longrightarrow>
         (\<exists>vs. getAllWithToken schema d ctxUser = Inr vs))"
proof (intro conjI allI impI)
  show "set (innerJoin d (user_id ctxUser)) =
     {(s, token a) | s a. s \<in> set (serviceInstances d) \<and> a \<in> set (userInstanceAbilities d)
        \<and> userId a = user_id ctxUser \<and> instanceId a = si_id s \<and> canUse a}"
    unfolding set_innerJoin by blast
next
  fix vs
  assume "getAllWithToken schema d ctxUser = Inr vs"
  then show "list_all2 (\<lambda>r v. schema r = Inr v) (innerJoin d (user_id ctxUser)) vs"
    by (simp add: getAllWithToken_def parseArray_Inr)
next
  assume "\<forall>r \<in> set (innerJoin d (user_id ctxUser)). \<exists>v. schema r = Inr v"
  then show "\<exists>vs. getAllWithToken schema d ctxUser = Inr vs"
    unfolding getAllWithToken_def by (rule parseArray_total)
qed


theorem getAllWithToken_rows_witness:
  "getAllWithToken Inr demoStore
     \<lparr> user_id = ''u2'', username = ''bob'', hashedPassword = ''h2'', role = USER,
        isActive = True \<rparr> = Inr []
   \<and> getAllWithToken Inr demoStore
     \<lparr> user_id = ''u1'', username = ''alice'', hashedPassword = ''h1'', role = USER,
        isActive = True \<rparr>
     = Inr [(\<lparr> si_id = ''X'', si_config = ''cx'', si_data = ''dx'', si_createdAt = 0,
               si_updatedAt = 0 \<rparr>, ''t1''),
            (\<lparr> si_id = ''Y'', si_config = ''cy'', si_data = ''dy'', si_createdAt = 0,
               si_updatedAt = 0 \<rparr>, ''t3'')]"
proof -
  let ?alice = "\<lparr> user_id = ''u1'', username = ''alice'', hashedPassword = ''h1'',
                   role = USER, isActive = True \<rparr>"
  have j: "innerJoin demoStore (user_id ?alice) =
     [(\<lparr> si_id = ''X'', si_config = ''cx'', si_data = ''dx'', si_createdAt = 0,
         si_updatedAt = 0 \<rparr>, ''t1''),
      (\<lparr> si_id = ''Y'', si_config = ''cy'', si_data = ''dy'', si_createdAt = 0,
         si_updatedAt = 0 \<rparr>, ''t3'')]"
    by (simp add: innerJoin_def demoStore_def)
  have "\<forall>r \<in> set (innerJoin demoStore (user_id ?alice)).
          \<exists>v. (Inr r :: error + serviceInstance \<times> string) = Inr v"
    by simp
  with getAllWithToken_rows [of demoStore ?alice Inr]
  obtain vs :: "(serviceInstance \<times> string) list"
    where vs: "getAllWithToken Inr demoStore ?alice = Inr vs"
      "list_all2 (\<lambda>r v. (Inr r :: error + serviceInstance \<times> string) = Inr v)
         (innerJoin demoStore (user_id ?alice)) vs"
    by blast
  from vs(2) have "vs = innerJoin demoStore (user_id ?alice)"
    by (simp add: list_all2_eq [symmetric] list.rel_eq)
  with vs(1) j show ?thesis
    by (simp add: getAllWithToken_def innerJoin_def demoStore_def)
qed

section \<open>Properties of the cascading delete\<close>

text \<open>
  C5. delete either commits all its statements or none. When it succeeds no ledger row
  and no instance row of the id remains, with deleteLogs no usage-log row of the id
  remains, and without deleteLogs the usage logs are as they were. When the store
  rejects a statement the call fails and the store is as it was before the call.
\<close>

theorem delete_all_or_nothing:
  "(\<exists>d'. delete rejected d i deleteLogs = (Inr (), d')
       \<and> (\<forall>a \<in> set (userInstanceAbilities d'). instanceId a \<noteq> i)
       \<and> (\<forall>s \<in> set (serviceInstances d'). si_id s \<noteq> i)
       \<and> (deleteLogs \<longrightarrow> (\<forall>l \<in> set (resourceUsageLogs d'). log_instanceId l \<noteq> i))
       \<and> (\<not> deleteLogs \<longrightarrow> resourceUsageLogs d' = resourceUsageLogs d))
   \<or> (\<exists>e. delete rejected d i deleteLogs = (Inl e, d)
       \<and> (rejected 0 \<or> rejected 1 \<or> (deleteLogs \<and> rejected 2)))"
  by (cases "rejected 0"; cases "rejected 1"; cases "rejected 2"; cases deleteLogs)
     (simp_all add: delete_def transaction_def stmt_def deleteAbilities_def
        deleteInstance_def deleteUsageLogs_def)


theorem delete_all_or_nothing_witness:
  "(\<exists>d'. delete (\<lambda>k. False) demoStore ''X'' True = (Inr (), d')
       \<and> (\<forall>a \<in> set (userInstanceAbilities d'). instanceId a \<noteq> ''X'')
       \<and> (\<forall>s \<in> set (serviceInstances d'). si_id s \<noteq> ''X'')
       \<and> (\<forall>l \<in> set (resourceUsageLogs d'). log_instanceId l \<noteq> ''X''))
   \<and> delete (\<lambda>k. k = 2) demoStore ''X'' True = (Inl StoreError, demoStore)"
proof -
  from delete_all_or_nothing [of "\<lambda>k. False" demoStore "''X''" True]
  have a: "\<exists>d'. delete (\<lambda>k. False) demoStore ''X'' True = (Inr (), d')
       \<and> (\<forall>a \<in> set (userInstanceAbilities d'). instanceId a \<noteq> ''X'')
       \<and> (\<forall>s \<in> set (serviceInstances d'). si_id s \<noteq> ''X'')
       \<and> (\<forall>l \<in> set (resourceUsageLogs d'). log_instanceId l \<noteq> ''X'')"
    by simp
  have "delete (\<lambda>k. k = 2) demoStore ''X'' True = (Inl StoreError, demoStore)"
    by (simp add: delete_def transaction_def stmt_def)
  with a show ?thesis by (rule conjI)
qed

section \<open>Properties of the access grant ledger\<close>

lemma upsertRow_keys:
  "map (\<lambda>a. (pairKey a, token a)) (upsertRow v t rows) =
     (if pairKey v \<in> pairKey ` set rows then map (\<lambda>a. (pairKey a, token a)) rows
      else map (\<lambda>a. (pairKey a, token a)) rows @ [(pairKey v, token v)])"
proof (cases "\<exists>a \<in> set rows. conflicts v a")
  case True
  then obtain a where "a \<in> set rows" and "pairKey a = pairKey v"
    by (auto simp: conflicts_def pairKey_def)
  then have "pairKey v \<in> pairKey ` set rows"
    by (metis imageI)
  with True show ?thesis
    by (auto simp: upsertRow_def conflicts_def pairKey_def)
next
  case False
  then have "pairKey v \<notin> pairKey ` set rows"
    by (auto simp: conflicts_def pairKey_def)
  with False show ?thesis
    by (simp add: upsertRow_def)
qed

lemma upsertRow_pairKeys:
  "map pairKey (upsertRow v t rows) =
     (if pairKey v \<in> pairKey ` set rows then map pairKey rows else map pairKey rows @ [pairKey v])"
  using arg_cong [OF upsertRow_keys [of v t rows], of "map fst"]
  by (simp add: comp_def split: if_splits)

lemma upsertRow_tokens:
  "map token (upsertRow v t rows) =
     (if pairKey v \<in> pairKey ` set rows then map token rows else map token rows @ [token v])"
  using arg_cong [OF upsertRow_keys [of v t rows], of "map snd"]
  by (simp add: comp_def split: if_splits)

lemma upsertRow_canUse:
  assumes "canUse v" and "a \<in> set (upsertRow v t rows)" and "pairKey a = pairKey v"
  shows "canUse a"
  using assms by (auto simp: upsertRow_def conflicts_def pairKey_def split: if_splits)

lemma upsertRow_canUse_kept:
  assumes "canUse v" and "\<forall>a \<in> set rows. pairKey a = K \<longrightarrow> canUse a"
    and "a \<in> set (upsertRow v t rows)" and "pairKey a = K"
  shows "canUse a"
  using assms by (auto simp: upsertRow_def conflicts_def pairKey_def split: if_splits)

lemma upsertRow_origin:
  assumes "a \<in> set (upsertRow v t rows)"
  shows "a \<in> set rows \<or> pairKey a = pairKey v"
  using assms by (auto simp: upsertRow_def conflicts_def pairKey_def split: if_splits)

lemma grantLoop_Cons:
  "grantLoop r c n i k (uid # us) tx = Inr tx' \<longleftrightarrow>
     \<not> r k \<and>
     grantLoop r c n i (Suc k) us
       (upsertAbility \<lparr> userId = uid, instanceId = i, token = c k, canUse = True,
          updatedAt = n (2 * k) \<rparr> (n (2 * k + 1)) tx) = Inr tx'"
  by (simp add: stmt_def)

lemma grantLoop_tables:
  "grantLoop r c n i k us tx = Inr tx' \<Longrightarrow>
     users tx' = users tx \<and> serviceInstances tx' = serviceInstances tx
     \<and> resourceUsageLogs tx' = resourceUsageLogs tx"
proof (induction us arbitrary: k tx)
  case Nil
  then show ?case by simp
next
  case (Cons uid us)
  from Cons.prems Cons.IH show ?case
    unfolding grantLoop_Cons by (fastforce simp: upsertAbility_def)
qed

lemma grantLoop_completes:
  "\<forall>j. k \<le> j \<and> j < k + length us \<longrightarrow> \<not> r j \<Longrightarrow> \<exists>tx'. grantLoop r c n i k us tx = Inr tx'"
proof (induction us arbitrary: k tx)
  case Nil
  then show ?case by simp
next
  case (Cons uid us)
  from Cons.prems have "\<forall>j. Suc k \<le> j \<and> j < Suc k + length us \<longrightarrow> \<not> r j" by simp
  from Cons.IH [OF this] Cons.prems show ?case
    unfolding grantLoop_Cons by simp
qed

text \<open>The keys and tokens of the ledger after the loop: those before, then new ones.\<close>

lemma grantLoop_keys:
  assumes "grantLoop r c n i k us tx = Inr tx'"
  shows "\<exists>new. map (\<lambda>a. (pairKey a, token a)) (userInstanceAbilities tx')
            = map (\<lambda>a. (pairKey a, token a)) (userInstanceAbilities tx) @ new
          \<and> distinct (map fst new)
          \<and> (\<forall>x \<in> set new. fst x \<notin> pairKey ` set (userInstanceAbilities tx)
                \<and> fst (fst x) \<in> set us \<and> snd (fst x) = i
                \<and> (\<exists>j. k \<le> j \<and> j < k + length us \<and> snd x = c j))"
  using assms
proof (induction us arbitrary: k tx)
  case Nil
  then show ?case by simp
next
  case (Cons uid us)
  let ?v = "\<lparr> userId = uid, instanceId = i, token = c k, canUse = True,
              updatedAt = n (2 * k) \<rparr>"
  let ?t = "n (2 * k + 1)"
  let ?K = "\<lambda>a. (pairKey a, token a)"
  let ?A = "userInstanceAbilities tx"
  let ?A1 = "upsertRow ?v ?t ?A"
  from Cons.prems have run: "grantLoop r c n i (Suc k) us (upsertAbility ?v ?t tx) = Inr tx'"
    unfolding grantLoop_Cons by simp
  from Cons.IH [OF run] obtain new where
    eq: "map ?K (userInstanceAbilities tx') = map ?K ?A1 @ new"
    and d: "distinct (map fst new)"
    and p: "\<forall>x \<in> set new. fst x \<notin> pairKey ` set ?A1
                \<and> fst (fst x) \<in> set us \<and> snd (fst x) = i
                \<and> (\<exists>j. Suc k \<le> j \<and> j < Suc k + length us \<and> snd x = c j)"
    by (auto simp: upsertAbility_def)
  have sub: "pairKey ` set ?A \<subseteq> pairKey ` set ?A1"
    using upsertRow_pairKeys [of ?v ?t ?A]
    by (metis (no_types, lifting) list.set_map set_append sup_ge1 subset_refl)
  have range: "\<And>x. x \<in> set new \<Longrightarrow> fst x \<notin> pairKey ` set ?A
      \<and> fst (fst x) \<in> set (uid # us) \<and> snd (fst x) = i
      \<and> (\<exists>j. k \<le> j \<and> j < k + length (uid # us) \<and> snd x = c j)"
  proof -
    fix x assume x: "x \<in> set new"
    with p obtain j where "Suc k \<le> j" "j < Suc k + length us" "snd x = c j" by blast
    then have "\<exists>j. k \<le> j \<and> j < k + length (uid # us) \<and> snd x = c j"
      by (intro exI [of _ j]) simp
    moreover from p x have "fst x \<notin> pairKey ` set ?A1" by blast
    with sub have "fst x \<notin> pairKey ` set ?A" by blast
    moreover from p x have "fst (fst x) \<in> set (uid # us)" and "snd (fst x) = i" by auto
    ultimately show "fst x \<notin> pairKey ` set ?A
      \<and> fst (fst x) \<in> set (uid # us) \<and> snd (fst x) = i
      \<and> (\<exists>j. k \<le> j \<and> j < k + length (uid # us) \<and> snd x = c j)"
      by blast
  qed
  show ?case
  proof (cases "pairKey ?v \<in> pairKey ` set ?A")
    case True
    with eq have "map ?K (userInstanceAbilities tx') = map ?K ?A @ new"
      by (simp add: upsertRow_keys)
    with d range show ?thesis by blast
  next
    case False
    with eq have e: "map ?K (userInstanceAbilities tx') = map ?K ?A @ ((pairKey ?v, c k) # new)"
      by (simp add: upsertRow_keys)
    from False have in1: "pairKey ?v \<in> pairKey ` set ?A1"
      using upsertRow_pairKeys [of ?v ?t ?A]
      by (metis (no_types, lifting) list.set_map set_append in_set_conv_decomp UnCI list.set_intros(1))
    have "pairKey ?v \<notin> fst ` set new"
    proof
      assume "pairKey ?v \<in> fst ` set new"
      then obtain x where "x \<in> set new" and "fst x = pairKey ?v" by (metis imageE)
      with p have "pairKey ?v \<notin> pairKey ` set ?A1" by metis
      with in1 show False by simp
    qed
    with d have d': "distinct (map fst ((pairKey ?v, c k) # new))" by simp
    have "\<forall>x \<in> set ((pairKey ?v, c k) # new). fst x \<notin> pairKey ` set ?A
                \<and> fst (fst x) \<in> set (uid # us) \<and> snd (fst x) = i
                \<and> (\<exists>j. k \<le> j \<and> j < k + length (uid # us) \<and> snd x = c j)"
    proof
      fix x assume "x \<in> set ((pairKey ?v, c k) # new)"
      then consider "x = (pairKey ?v, c k)" | "x \<in> set new" by auto
      then show "fst x \<notin> pairKey ` set ?A
                \<and> fst (fst x) \<in> set (uid # us) \<and> snd (fst x) = i
                \<and> (\<exists>j. k \<le> j \<and> j < k + length (uid # us) \<and> snd x = c j)"
      proof cases
        case 1
        have "\<exists>j. k \<le> j \<and> j < k + length (uid # us) \<and> c k = c j"
          by (intro exI [of _ k]) simp
        with 1 False show ?thesis by (simp add: pairKey_def)
      next
        case 2
        then show ?thesis by (rule range)
      qed
    qed
    with e d' show ?thesis by blast
  qed
qed

lemma upsertRow_covers: "pairKey v \<in> pairKey ` set (upsertRow v t rows)"
  using upsertRow_pairKeys [of v t rows]
  by (metis (no_types, lifting) list.set_map set_append in_set_conv_decomp UnCI list.set_intros(1))

lemma grantLoop_kept:
  assumes "grantLoop r c n i k us tx = Inr tx'" and "a \<in> set (userInstanceAbilities tx)"
  shows "\<exists>a' \<in> set (userInstanceAbilities tx'). pairKey a' = pairKey a \<and> token a' = token a"
proof -
  let ?K = "\<lambda>a. (pairKey a, token a)"
  from grantLoop_keys [OF assms(1)] obtain new where
    "map ?K (userInstanceAbilities tx') = map ?K (userInstanceAbilities tx) @ new" by blast
  then have "set (map ?K (userInstanceAbilities tx)) \<subseteq> set (map ?K (userInstanceAbilities tx'))"
    by simp
  with assms(2) have "?K a \<in> ?K ` set (userInstanceAbilities tx')" by auto
  then show ?thesis by auto
qed

lemma grantLoop_covers:
  assumes "grantLoop r c n i k us tx = Inr tx'" and "u \<in> set us"
  shows "(u, i) \<in> pairKey ` set (userInstanceAbilities tx')"
  using assms
proof (induction us arbitrary: k tx)
  case Nil
  then show ?case by simp
next
  case (Cons uid us)
  let ?v = "\<lparr> userId = uid, instanceId = i, token = c k, canUse = True,
              updatedAt = n (2 * k) \<rparr>"
  let ?t = "n (2 * k + 1)"
  from Cons.prems have run: "grantLoop r c n i (Suc k) us (upsertAbility ?v ?t tx) = Inr tx'"
    unfolding grantLoop_Cons by simp
  show ?case
  proof (cases "u = uid")
    case True
    have "pairKey ?v \<in> pairKey ` set (userInstanceAbilities (upsertAbility ?v ?t tx))"
      by (simp add: upsertAbility_def upsertRow_covers)
    then obtain a where "a \<in> set (userInstanceAbilities (upsertAbility ?v ?t tx))"
      and "pairKey a = pairKey ?v" by (metis imageE)
    with grantLoop_kept [OF run] obtain a' where "a' \<in> set (userInstanceAbilities tx')"
      and "pairKey a' = pairKey ?v" by metis
    with True show ?thesis by (metis imageI pairKey_def userInstanceAbility.select_convs(1,2))
  next
    case False
    with Cons.prems have "u \<in> set us" by simp
    from Cons.IH [OF run this] show ?thesis .
  qed
qed

lemma grantLoop_canUse_kept:
  assumes "grantLoop r c n i k us tx = Inr tx'"
    and "\<forall>a \<in> set (userInstanceAbilities tx). pairKey a = K \<longrightarrow> canUse a"
  shows "\<forall>a \<in> set (userInstanceAbilities tx'). pairKey a = K \<longrightarrow> canUse a"
  using assms
proof (induction us arbitrary: k tx)
  case Nil
  then show ?case by simp
next
  case (Cons uid us)
  let ?v = "\<lparr> userId = uid, instanceId = i, token = c k, canUse = True,
              updatedAt = n (2 * k) \<rparr>"
  let ?t = "n (2 * k + 1)"
  from Cons.prems have run: "grantLoop r c n i (Suc k) us (upsertAbility ?v ?t tx) = Inr tx'"
    unfolding grantLoop_Cons by simp
  have "\<forall>a \<in> set (userInstanceAbilities (upsertAbility ?v ?t tx)). pairKey a = K \<longrightarrow> canUse a"
    using upsertRow_canUse_kept [of ?v "userInstanceAbilities tx" K] Cons.prems(2)
    by (simp add: upsertAbility_def)
  from Cons.IH [OF run this] show ?case .
qed

lemma grantLoop_canUse:
  assumes "grantLoop r c n i k us tx = Inr tx'" and "u \<in> set us"
    and "a \<in> set (userInstanceAbilities tx')" and "pairKey a = (u, i)"
  shows "canUse a"
  using assms
proof (induction us arbitrary: k tx)
  case Nil
  then show ?case by simp
next
  case (Cons uid us)
  let ?v = "\<lparr> userId = uid, instanceId = i, token = c k, canUse = True,
              updatedAt = n (2 * k) \<rparr>"
  let ?t = "n (2 * k + 1)"
  from Cons.prems have run: "grantLoop r c n i (Suc k) us (upsertAbility ?v ?t tx) = Inr tx'"
    unfolding grantLoop_Cons by simp
  show ?case
  proof (cases "u = uid")
    case True
    then have "pairKey ?v = (u, i)" by (simp add: pairKey_def)
    then have "\<forall>a \<in> set (userInstanceAbilities (upsertAbility ?v ?t tx)).
        pairKey a = (u, i) \<longrightarrow> canUse a"
      using upsertRow_canUse [of ?v _ ?t "userInstanceAbilities tx"]
      by (simp add: upsertAbility_def)
    from grantLoop_canUse_kept [OF run this] Cons.prems show ?thesis by blast
  next
    case False
    with Cons.prems have "u \<in> set us" by simp
    from Cons.IH [OF run this] Cons.prems show ?thesis by blast
  qed
qed

lemma grantLoop_tokens:
  assumes "grantLoop r c n i k us tx = Inr tx'"
    and "distinct (map c [k..<k + length us] @ map token (userInstanceAbilities tx))"
  shows "distinct (map token (userInstanceAbilities tx'))"
  using assms
proof (induction us arbitrary: k tx)
  case Nil
  then show ?case by simp
next
  case (Cons uid us)
  let ?v = "\<lparr> userId = uid, instanceId = i, token = c k, canUse = True,
              updatedAt = n (2 * k) \<rparr>"
  let ?t = "n (2 * k + 1)"
  from Cons.prems have run: "grantLoop r c n i (Suc k) us (upsertAbility ?v ?t tx) = Inr tx'"
    unfolding grantLoop_Cons by simp
  define js where "js = [Suc k..<Suc k + length us]"
  have e: "[k..<k + length (uid # us)] = k # js"
    unfolding js_def using upt_conv_Cons [of k "Suc (k + length us)"] by simp
  from Cons.prems(2) have
    d: "distinct (c k # map c js @ map token (userInstanceAbilities tx))"
    unfolding e by simp
  then have "distinct (map c js @ map token (upsertRow ?v ?t (userInstanceAbilities tx)))"
    by (auto simp: upsertRow_tokens)
  then have "distinct (map c js @ map token (userInstanceAbilities (upsertAbility ?v ?t tx)))"
    by (simp add: upsertAbility_def)
  from Cons.IH [OF run this [unfolded js_def]] show ?case .
qed

lemma grantLoop_origin:
  assumes "grantLoop r c n i k us tx = Inr tx'" and "a \<in> set (userInstanceAbilities tx')"
  shows "a \<in> set (userInstanceAbilities tx) \<or> (userId a \<in> set us \<and> instanceId a = i)"
  using assms
proof (induction us arbitrary: k tx)
  case Nil
  then show ?case by simp
next
  case (Cons uid us)
  let ?v = "\<lparr> userId = uid, instanceId = i, token = c k, canUse = True,
              updatedAt = n (2 * k) \<rparr>"
  let ?t = "n (2 * k + 1)"
  from Cons.prems have run: "grantLoop r c n i (Suc k) us (upsertAbility ?v ?t tx) = Inr tx'"
    unfolding grantLoop_Cons by simp
  from Cons.IH [OF run Cons.prems(2)]
  consider "a \<in> set (upsertRow ?v ?t (userInstanceAbilities tx))"
    | "userId a \<in> set us \<and> instanceId a = i"
    by (auto simp: upsertAbility_def)
  then show ?case
  proof cases
    case 1
    from upsertRow_origin [OF 1] show ?thesis by (auto simp: pairKey_def)
  next
    case 2
    then show ?thesis by simp
  qed
qed

lemma grantLoop_pairs:
  assumes "grantLoop r c n i k us tx = Inr tx'"
    and "distinct (map pairKey (userInstanceAbilities tx))"
  shows "distinct (map pairKey (userInstanceAbilities tx'))"
proof -
  let ?K = "\<lambda>a. (pairKey a, token a)"
  from grantLoop_keys [OF assms(1)] obtain new where
    eq: "map ?K (userInstanceAbilities tx') = map ?K (userInstanceAbilities tx) @ new"
    and d: "distinct (map fst new)"
    and p: "\<forall>x \<in> set new. fst x \<notin> pairKey ` set (userInstanceAbilities tx)"
    by blast
  from arg_cong [OF eq, of "map fst"]
  have "map pairKey (userInstanceAbilities tx')
      = map pairKey (userInstanceAbilities tx) @ map fst new"
    by (simp add: comp_def)
  with assms(2) d p show ?thesis by auto
qed

lemma distinct_filter_one:
  assumes "distinct (map f xs)" and "x \<in> set xs"
  shows "length (filter (\<lambda>y. f y = f x) xs) = 1"
  using assms
proof (induction xs)
  case Nil
  then show ?case by simp
next
  case (Cons y ys)
  show ?case
  proof (cases "f y = f x")
    case True
    from Cons.prems have "f y \<notin> f ` set ys" by simp
    with True have "\<forall>z \<in> set ys. f z \<noteq> f x" by (metis imageI)
    then have "filter (\<lambda>y. f y = f x) ys = []" by (simp add: filter_empty_conv)
    with True show ?thesis by simp
  next
    case False
    with Cons show ?thesis by auto
  qed
qed

lemma transaction_Inr: "transaction cb d = (Inr (), d') \<longleftrightarrow> cb d = Inr d'"
  by (auto simp: transaction_def split: sum.splits)

lemma inactive_not_granted:
  assumes "uniqueUserIds d" and "u \<in> set (users d)" and "\<not> isActive u"
  shows "user_id u \<notin> set (activeUserIds d)"
proof
  assume "user_id u \<in> set (activeUserIds d)"
  then obtain v where v: "v \<in> set (users d)" "isActive v" "user_id v = user_id u"
    by (auto simp: activeUserIds_def)
  from assms(1) have "inj_on user_id (set (users d))"
    by (simp add: uniqueUserIds_def distinct_map)
  with v assms(2) have "v = u" by (auto dest: inj_onD)
  with v assms(3) show False by simp
qed

lemma grantToAllActiveUsers_completes:
  assumes "\<forall>j < length (activeUserIds d). \<not> rejected j"
  shows "\<exists>d'. grantToAllActiveUsers rejected createCUID now d i = (Inr (), d')"
proof -
  from assms have "\<forall>j. 0 \<le> j \<and> j < 0 + length (activeUserIds d) \<longrightarrow> \<not> rejected j"
    by simp
  from grantLoop_completes [OF this] show ?thesis
    by (simp add: grantToAllActiveUsers_def transaction_Inr)
qed

lemma grantToAllActiveUsers_rollback:
  "grantToAllActiveUsers rejected createCUID now d i = (Inl e, d') \<Longrightarrow> d' = d"
  by (auto simp: grantToAllActiveUsers_def transaction_def split: sum.splits)

text \<open>
  C3. After a run of grantToAllActiveUsers on a store with one ledger row for a pair
  of user and instance at most, unique user ids, and calls of createCUID with values
  different from each other and from the tokens of the ledger: every active user has
  exactly one row for the instance, with canUse true; every row of the ledger before
  the run is there with its token; a row for a pair with no row before is a row of an
  active user for this instance, with canUse true and the value of one of the calls of
  createCUID as its token, a token no row had; the tokens are unique; an inactive user
  has no row but those it had; and a second run leaves every token of the first.
\<close>

theorem grantToAllActiveUsers_grants:
  assumes first: "grantToAllActiveUsers rejected createCUID now d i = (Inr (), d')"
    and pairs: "uniquePairs d"
    and ids: "uniqueUserIds d"
    and fresh: "distinct (map createCUID [0..<length (activeUserIds d)]
                  @ map token (userInstanceAbilities d))"
    and second: "grantToAllActiveUsers rejected2 createCUID2 now2 d' i = (Inr (), d'')"
  shows
    "(\<forall>u \<in> set (users d). isActive u \<longrightarrow>
        length (filter (\<lambda>a. userId a = user_id u \<and> instanceId a = i)
                  (userInstanceAbilities d')) = 1
        \<and> (\<forall>a \<in> set (userInstanceAbilities d').
              userId a = user_id u \<and> instanceId a = i \<longrightarrow> canUse a))
     \<and> (\<forall>a \<in> set (userInstanceAbilities d). \<exists>a' \<in> set (userInstanceAbilities d').
           userId a' = userId a \<and> instanceId a' = instanceId a \<and> token a' = token a)
     \<and> (\<forall>a' \<in> set (userInstanceAbilities d').
           (\<forall>a \<in> set (userInstanceAbilities d). pairKey a \<noteq> pairKey a') \<longrightarrow>
           instanceId a' = i \<and> canUse a'
           \<and> (\<exists>u \<in> set (users d). isActive u \<and> user_id u = userId a')
           \<and> (\<exists>j < length (activeUserIds d). token a' = createCUID j)
           \<and> token a' \<notin> token ` set (userInstanceAbilities d))
     \<and> uniqueTokens d' \<and> uniquePairs d'
     \<and> (\<forall>u \<in> set (users d). \<not> isActive u \<longrightarrow>
           (\<forall>a' \<in> set (userInstanceAbilities d').
              userId a' = user_id u \<longrightarrow> a' \<in> set (userInstanceAbilities d)))
     \<and> (\<forall>a' \<in> set (userInstanceAbilities d'). \<forall>a'' \<in> set (userInstanceAbilities d'').
           userId a'' = userId a' \<and> instanceId a'' = instanceId a' \<longrightarrow> token a'' = token a')"
proof -
  let ?us = "activeUserIds d"
  let ?A = "userInstanceAbilities d"
  let ?A' = "userInstanceAbilities d'"
  let ?K = "\<lambda>a. (pairKey a, token a)"
  from first have run: "grantLoop rejected createCUID now i 0 ?us d = Inr d'"
    by (simp add: grantToAllActiveUsers_def transaction_Inr)
  from second have run2:
    "grantLoop rejected2 createCUID2 now2 i 0 (activeUserIds d') d' = Inr d''"
    by (simp add: grantToAllActiveUsers_def transaction_Inr)
  from pairs have dp: "distinct (map pairKey ?A')"
    using grantLoop_pairs [OF run] by (simp add: uniquePairs_def)
  then have dp2: "distinct (map pairKey (userInstanceAbilities d''))"
    by (rule grantLoop_pairs [OF run2])
  from fresh have dt: "distinct (map token ?A')"
    using grantLoop_tokens [OF run] by simp
  have one: "\<forall>u \<in> set (users d). isActive u \<longrightarrow>
        length (filter (\<lambda>a. userId a = user_id u \<and> instanceId a = i) ?A') = 1
        \<and> (\<forall>a \<in> set ?A'. userId a = user_id u \<and> instanceId a = i \<longrightarrow> canUse a)"
  proof (intro ballI impI conjI)
    fix u assume u: "u \<in> set (users d)" "isActive u"
    then have m: "user_id u \<in> set ?us" by (simp add: activeUserIds_def)
    from grantLoop_covers [OF run m] obtain a where
      a: "a \<in> set ?A'" "pairKey a = (user_id u, i)" by (metis imageE)
    from distinct_filter_one [OF dp a(1)] a(2)
    show "length (filter (\<lambda>a. userId a = user_id u \<and> instanceId a = i) ?A') = 1"
      by (simp add: pairKey_def)
    fix b assume "b \<in> set ?A'" "userId b = user_id u \<and> instanceId b = i"
    then show "canUse b"
      using grantLoop_canUse [OF run m, of b] by (simp add: pairKey_def)
  qed
  have kept: "\<forall>a \<in> set ?A. \<exists>a' \<in> set ?A'.
           userId a' = userId a \<and> instanceId a' = instanceId a \<and> token a' = token a"
  proof
    fix a assume "a \<in> set ?A"
    from grantLoop_kept [OF run this] show "\<exists>a' \<in> set ?A'.
           userId a' = userId a \<and> instanceId a' = instanceId a \<and> token a' = token a"
      by (auto simp: pairKey_def)
  qed
  have new: "\<forall>a' \<in> set ?A'.
           (\<forall>a \<in> set ?A. pairKey a \<noteq> pairKey a') \<longrightarrow>
           instanceId a' = i \<and> canUse a'
           \<and> (\<exists>u \<in> set (users d). isActive u \<and> user_id u = userId a')
           \<and> (\<exists>j < length ?us. token a' = createCUID j)
           \<and> token a' \<notin> token ` set ?A"
  proof (intro ballI impI)
    fix a' assume a': "a' \<in> set ?A'" and nk: "\<forall>a \<in> set ?A. pairKey a \<noteq> pairKey a'"
    from grantLoop_keys [OF run] obtain new where
      eq: "map ?K ?A' = map ?K ?A @ new"
      and p: "\<forall>x \<in> set new. fst x \<notin> pairKey ` set ?A
                \<and> fst (fst x) \<in> set ?us \<and> snd (fst x) = i
                \<and> (\<exists>j. 0 \<le> j \<and> j < 0 + length ?us \<and> snd x = createCUID j)"
      by blast
    from a' have "?K a' \<in> set (map ?K ?A')" by simp
    with eq have "?K a' \<in> set (map ?K ?A) \<or> ?K a' \<in> set new" by simp
    moreover from nk have "?K a' \<notin> set (map ?K ?A)" by auto
    ultimately have "?K a' \<in> set new" by simp
    with p have px: "fst (fst (?K a')) \<in> set ?us \<and> snd (fst (?K a')) = i
        \<and> (\<exists>j. 0 \<le> j \<and> j < 0 + length ?us \<and> snd (?K a') = createCUID j)"
      by blast
    then have k: "userId a' \<in> set ?us" "instanceId a' = i"
      by (simp_all add: pairKey_def)
    from px obtain j where j: "j < length ?us" "token a' = createCUID j" by auto
    from j(1) have "createCUID j \<in> set (map createCUID [0..<length ?us])" by simp
    with fresh have "createCUID j \<notin> token ` set ?A" by auto
    moreover from k a' have "canUse a'"
      using grantLoop_canUse [OF run, of "userId a'" a'] by (simp add: pairKey_def)
    moreover from k(1) have "\<exists>u \<in> set (users d). isActive u \<and> user_id u = userId a'"
      by (auto simp: activeUserIds_def)
    ultimately show "instanceId a' = i \<and> canUse a'
           \<and> (\<exists>u \<in> set (users d). isActive u \<and> user_id u = userId a')
           \<and> (\<exists>j < length ?us. token a' = createCUID j)
           \<and> token a' \<notin> token ` set ?A"
      using k j by auto
  qed
  have inactive: "\<forall>u \<in> set (users d). \<not> isActive u \<longrightarrow>
           (\<forall>a' \<in> set ?A'. userId a' = user_id u \<longrightarrow> a' \<in> set ?A)"
  proof (intro ballI impI)
    fix u a' assume u: "u \<in> set (users d)" "\<not> isActive u"
      and a': "a' \<in> set ?A'" "userId a' = user_id u"
    from inactive_not_granted [OF ids u] a'(2) have "userId a' \<notin> set ?us" by simp
    with grantLoop_origin [OF run a'(1)] show "a' \<in> set ?A" by simp
  qed
  have twice: "\<forall>a' \<in> set ?A'. \<forall>a'' \<in> set (userInstanceAbilities d'').
           userId a'' = userId a' \<and> instanceId a'' = instanceId a' \<longrightarrow> token a'' = token a'"
  proof (intro ballI impI)
    fix a' a'' assume a': "a' \<in> set ?A'" and a'': "a'' \<in> set (userInstanceAbilities d'')"
      and same: "userId a'' = userId a' \<and> instanceId a'' = instanceId a'"
    from grantLoop_kept [OF run2 a'] obtain b where
      b: "b \<in> set (userInstanceAbilities d'')" "pairKey b = pairKey a'" "token b = token a'"
      by blast
    from dp2 have "inj_on pairKey (set (userInstanceAbilities d''))"
      by (simp add: distinct_map)
    moreover from same b(2) have "pairKey a'' = pairKey b" by (simp add: pairKey_def)
    ultimately have "a'' = b" using a'' b(1) by (auto dest: inj_onD)
    with b(3) show "token a'' = token a'" by simp
  qed
  from one kept new dt dp inactive twice show ?thesis
    unfolding uniqueTokens_def uniquePairs_def by blast
qed

theorem grantToAllActiveUsers_grants_witness:
  "grantToAllActiveUsers (\<lambda>k. False) (\<lambda>k. ''c'' @ replicate k CHR ''x'') (\<lambda>k. 7) demoStore ''Y''
     = (Inr (), demoGranted)
   \<and> grantToAllActiveUsers (\<lambda>k. False) (\<lambda>k. ''z'' @ replicate k CHR ''x'') (\<lambda>k. 7)
       demoGranted ''Y'' = (Inr (), demoGranted)
   \<and> uniqueTokens demoGranted \<and> uniquePairs demoGranted"
proof -
  have h1: "grantToAllActiveUsers (\<lambda>k. False) (\<lambda>k. ''c'' @ replicate k CHR ''x'') (\<lambda>k. 7)
      demoStore ''Y'' = (Inr (), demoGranted)"
    by (simp add: grantToAllActiveUsers_def transaction_def activeUserIds_def stmt_def
        upsertAbility_def upsertRow_def conflicts_def demoStore_def demoGranted_def)
  have h2: "uniquePairs demoStore"
    by (simp add: uniquePairs_def pairKey_def demoStore_def)
  have h3: "uniqueUserIds demoStore"
    by (simp add: uniqueUserIds_def demoStore_def)
  have h4: "distinct (map (\<lambda>k. ''c'' @ replicate k CHR ''x'') [0..<length (activeUserIds demoStore)]
      @ map token (userInstanceAbilities demoStore))"
    by (simp add: activeUserIds_def demoStore_def)
  have h5: "grantToAllActiveUsers (\<lambda>k. False) (\<lambda>k. ''z'' @ replicate k CHR ''x'') (\<lambda>k. 7)
      demoGranted ''Y'' = (Inr (), demoGranted)"
    by (simp add: grantToAllActiveUsers_def transaction_def activeUserIds_def stmt_def
        upsertAbility_def upsertRow_def conflicts_def demoStore_def demoGranted_def)
  from grantToAllActiveUsers_grants [OF h1 h2 h3 h4 h5]
  have "uniqueTokens demoGranted \<and> uniquePairs demoGranted" by blast
  with h1 h5 show ?thesis by simp
qed


section \<open>Properties of the user router\<close>

lemma find_some_id:
  "\<exists>u \<in> set xs. P u \<Longrightarrow> \<exists>u. find P xs = Some u \<and> P u \<and> u \<in> set xs"
  by (induction xs) auto

lemma changePassword_forbidden:
  "role ctxUser \<noteq> ADMIN \<and> inputId \<noteq> user_id ctxUser \<Longrightarrow>
      changePassword hashPassword d ctxUser inputId pw
        = (Inl (TRPCError FORBIDDEN ''You can only change your own password''), d)"
  by (simp add: changePassword_def)

lemma changePassword_allowed:
  assumes "role ctxUser = ADMIN \<or> inputId = user_id ctxUser"
    and "find (\<lambda>u. user_id u = inputId) (users d) = Some u"
  shows "changePassword hashPassword d ctxUser inputId pw
      = (Inr (u\<lparr> hashedPassword := hashPassword pw \<rparr>),
         d\<lparr> users := map (\<lambda>u. if user_id u = inputId
                                then u\<lparr> hashedPassword := hashPassword pw \<rparr> else u)
                        (users d) \<rparr>)"
proof -
  from assms(1) have "\<not> (role ctxUser \<noteq> ADMIN \<and> inputId \<noteq> user_id ctxUser)" by blast
  with assms(2) show ?thesis
    unfolding changePassword_def Let_def by simp
qed

lemma changePassword_rows_hash:
  assumes "v \<in> set (map (\<lambda>u. if user_id u = i then u\<lparr> hashedPassword := h \<rparr> else u) xs)"
    and "user_id v = i"
  shows "hashedPassword v = h"
proof -
  from assms(1) obtain u where u: "u \<in> set xs"
    and v: "v = (if user_id u = i then u\<lparr> hashedPassword := h \<rparr> else u)"
    by auto
  show ?thesis
  proof (cases "user_id u = i")
    case True
    with v show ?thesis by simp
  next
    case False
    with v assms(2) show ?thesis by simp
  qed
qed

lemma changePassword_rows_exists:
  assumes "u \<in> set xs" and "user_id u = i"
  shows "\<exists>v \<in> set (map (\<lambda>u. if user_id u = i then u\<lparr> hashedPassword := h \<rparr> else u) xs).
            user_id v = i"
proof -
  let ?f = "\<lambda>u. if user_id u = i then u\<lparr> hashedPassword := h \<rparr> else u"
  from assms(1) have "?f u \<in> set (map ?f xs)" by (rule imageI [of u "set xs" ?f, folded set_map])
  moreover from assms(2) have "user_id (?f u) = i" by simp
  ultimately show ?thesis by (rule bexI [rotated])
qed

text \<open>
  C7. changePassword called by a caller who is not an admin, with an id that is not the
  caller's, fails with FORBIDDEN and leaves the store as it was. Called by an admin or
  with the caller's own id, for the id of a user row, it succeeds: the row it returns and
  every row of that id in the store have the hash of the new password as hashedPassword,
  which is not the password itself whenever the hash of the password is not.
\<close>

theorem changePassword_authorization:
  "(role ctxUser \<noteq> ADMIN \<and> inputId \<noteq> user_id ctxUser \<longrightarrow>
      changePassword hashPassword d ctxUser inputId pw
        = (Inl (TRPCError FORBIDDEN ''You can only change your own password''), d))
   \<and> ((role ctxUser = ADMIN \<or> inputId = user_id ctxUser)
        \<and> (\<exists>u \<in> set (users d). user_id u = inputId) \<longrightarrow>
      (\<exists>row d'. changePassword hashPassword d ctxUser inputId pw = (Inr row, d')
         \<and> user_id row = inputId \<and> hashedPassword row = hashPassword pw
         \<and> length (users d') = length (users d)
         \<and> (\<forall>u \<in> set (users d'). user_id u = inputId \<longrightarrow>
               hashedPassword u = hashPassword pw
               \<and> (hashPassword pw \<noteq> pw \<longrightarrow> hashedPassword u \<noteq> pw))
         \<and> (\<exists>u \<in> set (users d'). user_id u = inputId)))"
proof (intro conjI impI)
  assume "role ctxUser \<noteq> ADMIN \<and> inputId \<noteq> user_id ctxUser"
  then show "changePassword hashPassword d ctxUser inputId pw
        = (Inl (TRPCError FORBIDDEN ''You can only change your own password''), d)"
    by (rule changePassword_forbidden)
next
  assume a: "(role ctxUser = ADMIN \<or> inputId = user_id ctxUser)
        \<and> (\<exists>u \<in> set (users d). user_id u = inputId)"
  then obtain u where u: "find (\<lambda>u. user_id u = inputId) (users d) = Some u"
    "user_id u = inputId" "u \<in> set (users d)"
    using find_some_id [of "users d" "\<lambda>u. user_id u = inputId"] by blast
  define us' where "us' = map (\<lambda>u. if user_id u = inputId
                                    then u\<lparr> hashedPassword := hashPassword pw \<rparr> else u)
                            (users d)"
  from a u(1) have r: "changePassword hashPassword d ctxUser inputId pw
      = (Inr (u\<lparr> hashedPassword := hashPassword pw \<rparr>), d\<lparr> users := us' \<rparr>)"
    unfolding us'_def by (simp add: changePassword_allowed)
  have k: "\<forall>v \<in> set us'. user_id v = inputId \<longrightarrow> hashedPassword v = hashPassword pw"
    unfolding us'_def using changePassword_rows_hash by blast
  have e: "\<exists>v \<in> set us'. user_id v = inputId"
    unfolding us'_def using u(3) u(2) by (rule changePassword_rows_exists)
  have l: "length us' = length (users d)" by (simp add: us'_def)
  have "user_id (u\<lparr> hashedPassword := hashPassword pw \<rparr>) = inputId
      \<and> hashedPassword (u\<lparr> hashedPassword := hashPassword pw \<rparr>) = hashPassword pw
      \<and> length (users (d\<lparr> users := us' \<rparr>)) = length (users d)
      \<and> (\<forall>u \<in> set (users (d\<lparr> users := us' \<rparr>)). user_id u = inputId \<longrightarrow>
               hashedPassword u = hashPassword pw
               \<and> (hashPassword pw \<noteq> pw \<longrightarrow> hashedPassword u \<noteq> pw))
      \<and> (\<exists>u \<in> set (users (d\<lparr> users := us' \<rparr>)). user_id u = inputId)"
    using u(2) k e l by simp
  with r show "\<exists>row d'. changePassword hashPassword d ctxUser inputId pw = (Inr row, d')
         \<and> user_id row = inputId \<and> hashedPassword row = hashPassword pw
         \<and> length (users d') = length (users d)
         \<and> (\<forall>u \<in> set (users d'). user_id u = inputId \<longrightarrow>
               hashedPassword u = hashPassword pw
               \<and> (hashPassword pw \<noteq> pw \<longrightarrow> hashedPassword u \<noteq> pw))
         \<and> (\<exists>u \<in> set (users d'). user_id u = inputId)"
    by blast
qed

theorem changePassword_authorization_witness:
  "changePassword (\<lambda>p. ''#'' @ p) demoStore
     \<lparr> user_id = ''u1'', username = ''alice'', hashedPassword = ''h1'', role = USER,
        isActive = True \<rparr> ''u2'' ''secret''
     = (Inl (TRPCError FORBIDDEN ''You can only change your own password''), demoStore)
   \<and> (\<exists>row d'. changePassword (\<lambda>p. ''#'' @ p) demoStore
        \<lparr> user_id = ''u1'', username = ''alice'', hashedPassword = ''h1'', role = USER,
           isActive = True \<rparr> ''u1'' ''secret'' = (Inr row, d')
        \<and> hashedPassword row = ''#secret'')"
proof -
  let ?alice = "\<lparr> user_id = ''u1'', username = ''alice'', hashedPassword = ''h1'',
                   role = USER, isActive = True \<rparr>"
  let ?h = "\<lambda>p. ''#'' @ p"
  have h1: "role ?alice \<noteq> ADMIN \<and> ''u2'' \<noteq> user_id ?alice" by simp
  have a: "changePassword ?h demoStore ?alice ''u2'' ''secret''
     = (Inl (TRPCError FORBIDDEN ''You can only change your own password''), demoStore)"
    by (rule changePassword_authorization [THEN conjunct1, THEN mp, OF h1])
  have h2: "(role ?alice = ADMIN \<or> ''u1'' = user_id ?alice)
      \<and> (\<exists>u \<in> set (users demoStore). user_id u = ''u1'')"
    by (simp add: demoStore_def)
  from changePassword_authorization [THEN conjunct2, THEN mp, OF h2, of ?h "''secret''"]
  obtain row d' where "changePassword ?h demoStore ?alice ''u1'' ''secret'' = (Inr row, d')"
    and "hashedPassword row = ?h ''secret''"
    by blast
  then have "\<exists>row d'. changePassword ?h demoStore ?alice ''u1'' ''secret'' = (Inr row, d')
        \<and> hashedPassword row = ''#secret''"
    by simp
  with a show ?thesis by (rule conjI)
qed

lemma login_missing_user:
  assumes "\<forall>u \<in> set (users d). username u \<noteq> name"
  shows "login verifyPassword d name pw
    = (Inl (TRPCError UNAUTHORIZED ''Wrong username or password''), [])"
proof -
  from assms have "find (\<lambda>u. username u = name) (users d) = None"
    by (simp add: find_None_iff)
  then show ?thesis by (simp add: login_def)
qed

text \<open>
  C4. A login with a username that no user has calls no password primitive before it
  fails, while a login with a wrong password calls verifyPassword once; both fail with
  the same error.
\<close>

theorem login_missing_user_skips_hash:
  "login (\<lambda>p h. h = ''h'' @ p) demoStore ''ghost'' ''secret''
     = (Inl (TRPCError UNAUTHORIZED ''Wrong username or password''), [])
   \<and> login (\<lambda>p h. h = ''h'' @ p) demoStore ''alice'' ''secret''
     = (Inl (TRPCError UNAUTHORIZED ''Wrong username or password''),
        [VerifyPassword ''secret'' ''h1''])"
  by (simp add: login_def demoStore_def)


end
